theory Spec2Isabelle
  imports Complex_Main "HOL-Library.Multiset" "HOL-Library.Sublist"
begin

section \<open>Python strings\<close>

text \<open>
  Python \<open>str\<close> values are modelled as \<open>string\<close>; a character stands for a code point
  below 256. The built-in string methods that \<open>website_scraper.py\<close> calls are written out.
\<close>

text \<open>\<open>s.startswith(p)\<close>.\<close>

definition startswith :: "string \<Rightarrow> string \<Rightarrow> bool" where
  "startswith s p = (take (length p) s = p)"

text \<open>\<open>c.isspace()\<close> on code points below 256: TAB, LF, VT, FF, CR, FS, GS, RS, US, space,
  NEL and NBSP.\<close>

definition py_isspace :: "char \<Rightarrow> bool" where
  "py_isspace c =
     (let n = (of_char c :: nat)
      in (9 \<le> n \<and> n \<le> 13) \<or> (28 \<le> n \<and> n \<le> 32) \<or> n = 133 \<or> n = 160)"

text \<open>\<open>s.split()\<close> with no argument: the maximal runs of non-whitespace characters.\<close>

fun split_acc :: "string \<Rightarrow> string \<Rightarrow> string list" where
  "split_acc cur [] = (if cur = [] then [] else [cur])"
| "split_acc cur (c # cs) =
     (if py_isspace c
      then (if cur = [] then split_acc [] cs else cur # split_acc [] cs)
      else split_acc (cur @ [c]) cs)"

definition py_split :: "string \<Rightarrow> string list" where
  "py_split s = split_acc [] s"

text \<open>\<open>s.strip()\<close>.\<close>

definition py_strip :: "string \<Rightarrow> string" where
  "py_strip s = rev (dropWhile py_isspace (rev (dropWhile py_isspace s)))"

text \<open>\<open>sep.join(xs)\<close> on a sequence of strings.\<close>

fun py_join :: "string \<Rightarrow> string list \<Rightarrow> string" where
  "py_join sep [] = []"
| "py_join sep [x] = x"
| "py_join sep (x # y # ys) = x @ sep @ py_join sep (y # ys)"

text \<open>\<open>s.lower()\<close> on code points below 256.\<close>

definition lower_char :: "char \<Rightarrow> char" where
  "lower_char c =
     (let n = (of_char c :: nat)
      in if (65 \<le> n \<and> n \<le> 90) \<or> (192 \<le> n \<and> n \<le> 222 \<and> n \<noteq> 215)
         then char_of (n + 32) else c)"

definition py_lower :: "string \<Rightarrow> string" where
  "py_lower s = map lower_char s"

section \<open>URL normalisation\<close>

text \<open>
  \<^verbatim>\<open>
  def normalize_url(self, url):
      if not url.startswith(("http://", "https://")):
          return f"https://{url}"
      return url
  \<close>
\<close>

definition normalize_url :: "string \<Rightarrow> string" where
  "normalize_url url =
     (if \<not> (startswith url ''http://'' \<or> startswith url ''https://'')
      then ''https://'' @ url
      else url)"

section \<open>Exceptions and effects\<close>

text \<open>
  Every \<open>raise\<close> of the source and every exception a library call can raise is a value.
  The first four are the \<open>Exception(...)\<close> objects \<open>scrape_url\<close> builds itself, with the
  fields of their f-strings; the others carry the text the raising library gives them.
\<close>

datatype exn =
    NoElementsFound string string
  | InvalidContentType string
  | NoRegexMatches string string
  | NoContentExtracted string string
  | HTTPError string
  | TypeError string
  | ZeroDivisionError
  | LibraryError string

text \<open>\<open>str(e)\<close>.\<close>

fun exn_str :: "exn \<Rightarrow> string" where
  "exn_str (NoElementsFound sel u) =
     ''No elements found for selector '' @ [CHR 0x27] @ sel @ [CHR 0x27] @ '' on '' @ u"
| "exn_str (InvalidContentType ct) = ''Invalid content type: '' @ ct"
| "exn_str (NoRegexMatches p u) = ''No regex matches found for '' @ p @ '' on '' @ u"
| "exn_str (NoContentExtracted ct u) = ''No content extracted for '' @ ct @ '' on '' @ u"
| "exn_str (HTTPError m) = m"
| "exn_str (TypeError m) = m"
| "exn_str ZeroDivisionError = ''division by zero''"
| "exn_str (LibraryError m) = m"

type_synonym headers = "(string \<times> string) list"
type_synonym proxies = "(string \<times> string) list"

text \<open>
  What the program does to the outside, in order: \<open>requests.get(url, headers=, timeout=,
  proxies=)\<close>, the Selenium calls (\<open>webdriver.Chrome(options)\<close> with the arguments added to
  the options, \<open>driver.get\<close>, \<open>driver.implicitly_wait\<close>, \<open>driver.page_source\<close>,
  \<open>driver.quit\<close>), \<open>time.sleep\<close>, \<open>status_queue.put\<close> and \<open>self.logger.error\<close>.
\<close>

datatype effect =
    RequestsGet string "headers option" real "proxies option"
  | ChromeStart "string list"
  | DriverGet string
  | ImplicitlyWait real
  | PageSource
  | DriverQuit
  | Sleep real
  | StatusPut string
  | LoggerError string

section \<open>Parsed markup\<close>

text \<open>
  The tree \<open>BeautifulSoup\<close> builds: tags with their attribute dictionary and children, and
  text nodes. An attribute value is a string, or a list of strings for the multi-valued
  attributes (\<open>class\<close>, \<open>rel\<close>, ...).
\<close>

datatype attr_value = is_AStr: AStr (the_str: string) | AList "string list"

datatype node = Tag string "(string \<times> attr_value) list" "node list" | NavigableString string

text \<open>\<open>element.get_text(strip=True)\<close>: every text node below the element, stripped, the
  empty ones dropped, concatenated with no separator.\<close>

fun all_strings :: "node \<Rightarrow> string list" where
  "all_strings (NavigableString s) = (if py_strip s = [] then [] else [py_strip s])"
| "all_strings (Tag n a cs) = concat (map all_strings cs)"

definition get_text_strip :: "node \<Rightarrow> string" where
  "get_text_strip e = concat (all_strings e)"

text \<open>\<open>element.get(key)\<close> and \<open>element.get(key, default)\<close>.\<close>

fun tag_get :: "node \<Rightarrow> string \<Rightarrow> attr_value option" where
  "tag_get (Tag n a cs) k = map_of a k"
| "tag_get (NavigableString s) k = None"

definition tag_get_default :: "node \<Rightarrow> string \<Rightarrow> attr_value \<Rightarrow> attr_value" where
  "tag_get_default e k d = (case tag_get e k of None \<Rightarrow> d | Some v \<Rightarrow> v)"

text \<open>\<open>sep.join(vs)\<close> on attribute values: a \<open>TypeError\<close> when one of them is a list.\<close>

definition join_values :: "string \<Rightarrow> attr_value list \<Rightarrow> exn + string" where
  "join_values sep vs =
     (if list_all is_AStr vs then Inr (py_join sep (map the_str vs))
      else Inl (TypeError ''sequence item: expected str instance, list found''))"

section \<open>Regular expressions\<close>

text \<open>
  The \<open>re\<close> module is outside the repository. A compiled pattern object is modelled by its
  pattern text and its syntax tree, for the fragment: the empty pattern, a literal
  character, \<open>\d\<close>, \<open>.\<close>, concatenation, \<open>|\<close>, \<open>*\<close> and capturing groups (numbered from 1
  in the order of their opening parentheses). \<open>r+\<close> is \<open>Seq r (Star r)\<close>. Matching is
  leftmost and greedy with backtracking, as \<open>re\<close> does it: \<open>rmatch\<close> lists the ways a
  pattern matches a prefix of the subject, in the order in which backtracking tries them,
  each as the rest of the subject and the text of the groups.
\<close>

datatype regex =
    Eps
  | Chr char
  | Digit
  | AnyChar
  | Seq regex regex
  | Alt regex regex
  | Star regex
  | Group nat regex

record pattern_obj =
  pattern :: string
  prog :: regex

type_synonym mstate = "string \<times> (nat \<Rightarrow> string option)"

definition is_digit :: "char \<Rightarrow> bool" where
  "is_digit c = (let n = (of_char c :: nat) in 48 \<le> n \<and> n \<le> 57)"

function rmatch :: "regex \<Rightarrow> mstate \<Rightarrow> mstate list" where
  "rmatch Eps st = [st]"
| "rmatch (Chr c) (s, g) = (case s of [] \<Rightarrow> [] | x # xs \<Rightarrow> if x = c then [(xs, g)] else [])"
| "rmatch Digit (s, g) = (case s of [] \<Rightarrow> [] | x # xs \<Rightarrow> if is_digit x then [(xs, g)] else [])"
| "rmatch AnyChar (s, g) =
     (case s of [] \<Rightarrow> [] | x # xs \<Rightarrow> if x \<noteq> CHR 0x0A then [(xs, g)] else [])"
| "rmatch (Seq a b) st = concat (map (rmatch b) (rmatch a st))"
| "rmatch (Alt a b) st = rmatch a st @ rmatch b st"
| "rmatch (Star a) (s, g) =
     concat (map (rmatch (Star a))
               (filter (\<lambda>st'. length (fst st') < length s) (rmatch a (s, g))))
     @ [(s, g)]"
| "rmatch (Group n a) (s, g) =
     map (\<lambda>st'. (fst st', (snd st')(n \<mapsto> take (length s - length (fst st')) s)))
       (rmatch a (s, g))"
  by pat_completeness auto
termination
  by (relation "measure size <*lex*> measure (\<lambda>st. length (fst st))") auto

text \<open>The number of capturing groups of a pattern.\<close>

fun ngroups :: "regex \<Rightarrow> nat" where
  "ngroups (Seq a b) = ngroups a + ngroups b"
| "ngroups (Alt a b) = ngroups a + ngroups b"
| "ngroups (Star a) = ngroups a"
| "ngroups (Group n a) = Suc (ngroups a)"
| "ngroups r = 0"

text \<open>
  The successive matches of a scan over the subject, each as the subject from where the
  match starts and the matcher's final state. After an empty match the next match must
  start at the same place and be non-empty, or start further right. The two branches that
  give \<open>[]\<close> after a match are there for the termination proof only.
\<close>

function finditer :: "regex \<Rightarrow> string \<Rightarrow> bool \<Rightarrow> (string \<times> mstate) list" where
  "finditer r s adv =
     (case filter (\<lambda>st'. \<not> adv \<or> fst st' \<noteq> s) (rmatch r (s, Map.empty)) of
        [] \<Rightarrow> (case s of [] \<Rightarrow> [] | x # xs \<Rightarrow> finditer r xs False)
      | m # ms \<Rightarrow>
          (s, m) #
          (if fst m = s then (if adv then [] else finditer r s True)
           else if length (fst m) < length s then finditer r (fst m) False
           else []))"
  by pat_completeness auto
termination
  by (relation "measure (\<lambda>(r, s, adv). 2 * length s + (if adv then 0 else 1))") auto

text \<open>The text a match spans.\<close>

definition match_text :: "string \<times> mstate \<Rightarrow> string" where
  "match_text sm = take (length (fst sm) - length (fst (snd sm))) (fst sm)"


text \<open>
  \<open>regex.findall(content)\<close>: the list of the matches' texts when the pattern has no group,
  of the group's texts when it has one, and of tuples of the groups' texts when it has
  several; a group that took no part in a match gives the empty string.
\<close>

datatype re_item = is_Str: Str (str_of: string) | Tup "string list"

definition group_text :: "mstate \<Rightarrow> nat \<Rightarrow> string" where
  "group_text st n = (case snd st n of None \<Rightarrow> [] | Some t \<Rightarrow> t)"

definition item_of :: "regex \<Rightarrow> string \<times> mstate \<Rightarrow> re_item" where
  "item_of r sm =
     (if ngroups r = 0 then Str (match_text sm)
      else if ngroups r = 1 then Str (group_text (snd sm) 1)
      else Tup (map (group_text (snd sm)) [1..<Suc (ngroups r)]))"

definition findall :: "pattern_obj \<Rightarrow> string \<Rightarrow> re_item list" where
  "findall p s = map (item_of (prog p)) (finditer (prog p) s False)"

text \<open>\<open>sep.join(matches)\<close>: a \<open>TypeError\<close> when an item is a tuple.\<close>

definition join_items :: "string \<Rightarrow> re_item list \<Rightarrow> exn + string" where
  "join_items sep ms =
     (if list_all is_Str ms then Inr (py_join sep (map str_of ms))
      else Inl (TypeError ''sequence item: expected str instance, tuple found''))"

text \<open>\<open>re.compile("")\<close>, \<open>re.compile(r"id-\d+")\<close>, \<open>re.compile(r"id-(\d+)")\<close> and
  \<open>re.compile(r"(id)-(\d+)")\<close>.\<close>

definition empty_pattern :: pattern_obj where
  "empty_pattern = \<lparr>pattern = [], prog = Eps\<rparr>"




text \<open>
  The strings a pattern matches, by the structure of the pattern; a group matches what its
  body matches.
\<close>

inductive_set kleene :: "string set \<Rightarrow> string set" for A where
  nil: "[] \<in> kleene A"
| more: "u \<in> A \<Longrightarrow> v \<in> kleene A \<Longrightarrow> u @ v \<in> kleene A"

fun lang :: "regex \<Rightarrow> string set" where
  "lang Eps = {[]}"
| "lang (Chr c) = {[c]}"
| "lang Digit = {[x] | x. is_digit x}"
| "lang AnyChar = {[x] | x. x \<noteq> CHR 0x0A}"
| "lang (Seq a b) = {u @ v | u v. u \<in> lang a \<and> v \<in> lang b}"
| "lang (Alt a b) = lang a \<union> lang b"
| "lang (Star a) = kleene (lang a)"
| "lang (Group n a) = lang a"

section \<open>The outside world\<close>

text \<open>
  The libraries the program calls are parameters of the model. A call that depends on
  the network takes a time index, so that the same request can be answered differently
  when it is repeated. \<open>requests_get\<close> answers \<open>requests.get(url, headers=, timeout=,
  proxies=)\<close>; \<open>chrome_start\<close>, \<open>driver_get\<close> and \<open>driver_page_source\<close> answer
  \<open>webdriver.Chrome(options)\<close>, \<open>driver.get(url)\<close> and \<open>driver.page_source\<close>;
  \<open>BeautifulSoup\<close> takes the markup and the name of the parser; \<open>soup_select\<close> is
  \<open>soup.select(selector)\<close> and \<open>urljoin\<close> is \<open>urllib.parse.urljoin(base, href)\<close>.
\<close>

record response =
  status_code :: int
  resp_text :: string
  http_error_msg :: string

record world =
  requests_get :: "nat \<Rightarrow> string \<Rightarrow> headers option \<Rightarrow> real \<Rightarrow> proxies option \<Rightarrow> exn + response"
  chrome_start :: "nat \<Rightarrow> string list \<Rightarrow> exn option"
  driver_get :: "nat \<Rightarrow> string \<Rightarrow> exn option"
  driver_page_source :: "nat \<Rightarrow> string \<Rightarrow> exn + string"
  BeautifulSoup :: "string \<Rightarrow> string \<Rightarrow> exn + node list"
  soup_select :: "node list \<Rightarrow> string \<Rightarrow> exn + node list"
  urljoin :: "string \<Rightarrow> string \<Rightarrow> exn + string"

section \<open>scrape_url\<close>

record ScrapedData =
  url :: string
  content :: string
  attributes :: string

text \<open>
  The tuple \<open>args\<close> of \<open>scrape_url\<close> without its first and last components: the url is a
  parameter of its own and what is put on \<open>status_queue\<close> is returned as effects.
  \<open>regex\<close> is \<open>None\<close> or a compiled pattern object; a pattern object is truthy.
\<close>

record scrape_args =
  selector :: string
  attribute :: string
  regex :: "pattern_obj option"
  use_headless :: bool
  content_type :: string
  timeout :: real
  proxy :: string
  retry_attempts :: int

text \<open>\<open>{"http": proxy, "https": proxy} if proxy else None\<close>.\<close>

definition proxies_of :: "string \<Rightarrow> proxies option" where
  "proxies_of p = (if p \<noteq> [] then Some [(''http'', p), (''https'', p)] else None)"

text \<open>
  Lines 253 to 267: the page's markup, from a headless Chrome or from \<open>requests\<close>, with the
  calls made. \<open>driver.quit()\<close> runs in the \<open>finally\<close> clause once the driver exists.
  \<open>raise_for_status\<close> raises for a status from 400 to 599.
\<close>

definition fetch_html :: "world \<Rightarrow> nat \<Rightarrow> scrape_args \<Rightarrow> string \<Rightarrow> effect list \<times> (exn + string)" where
  "fetch_html w t a normalized_url =
     (if use_headless a then
        (case chrome_start w t [''--headless''] of
           Some e \<Rightarrow> ([ChromeStart [''--headless'']], Inl e)
         | None \<Rightarrow>
             (case driver_get w t normalized_url of
                Some e \<Rightarrow>
                  ([ChromeStart [''--headless''], DriverGet normalized_url, DriverQuit], Inl e)
              | None \<Rightarrow>
                  ([ChromeStart [''--headless''], DriverGet normalized_url,
                    ImplicitlyWait (timeout a), PageSource, DriverQuit],
                   driver_page_source w t normalized_url)))
      else
        ([RequestsGet normalized_url None (timeout a) (proxies_of (proxy a))],
         (case requests_get w t normalized_url None (timeout a) (proxies_of (proxy a)) of
            Inl e \<Rightarrow> Inl e
          | Inr r \<Rightarrow>
              if 400 \<le> status_code r \<and> status_code r < 600
              then Inl (HTTPError (http_error_msg r))
              else Inr (resp_text r))))"

text \<open>Lines 274 to 281: the content of the matched elements, by content type.\<close>

definition normalized_text :: "node \<Rightarrow> string" where
  "normalized_text element = py_join '' '' (py_split (get_text_strip element))"

definition joined_content :: "string \<Rightarrow> node list \<Rightarrow> exn + string" where
  "joined_content ct elements =
     (if py_lower ct = ''text'' then
        Inr (py_join ''\<newline>'' (map normalized_text elements))
      else if py_lower ct = ''links'' then
        join_values ''\<newline>'' (map (\<lambda>element. tag_get_default element ''href'' (AStr [])) elements)
      else if py_lower ct = ''images'' then
        join_values ''\<newline>'' (map (\<lambda>element. tag_get_default element ''src'' (AStr [])) elements)
      else Inl (InvalidContentType ct))"

text \<open>Lines 283 to 287: the regex filter.\<close>

definition regex_filter :: "pattern_obj option \<Rightarrow> string \<Rightarrow> string \<Rightarrow> exn + string" where
  "regex_filter rx normalized_url c =
     (case rx of
        None \<Rightarrow> Inr c
      | Some p \<Rightarrow>
          (let matches = findall p c
           in if matches = [] then Inl (NoRegexMatches (pattern p) normalized_url)
              else join_items ''\<newline>'' matches))"

text \<open>Lines 289 to 291: the attribute values, for content type \<open>text\<close>.\<close>

definition collect_attributes :: "scrape_args \<Rightarrow> node list \<Rightarrow> exn + string" where
  "collect_attributes a elements =
     (if py_lower (content_type a) = ''text'' \<and> attribute a \<noteq> []
      then join_values ''\<newline>''
             (map (\<lambda>element. tag_get_default element (attribute a) (AStr [])) elements)
      else Inr [])"

text \<open>Lines 269 to 297: from the markup to the record, or the exception raised on the way.\<close>

definition extract_data :: "world \<Rightarrow> scrape_args \<Rightarrow> string \<Rightarrow> string \<Rightarrow> exn + ScrapedData" where
  "extract_data w a normalized_url html =
     (case BeautifulSoup w html ''html.parser'' of
        Inl e \<Rightarrow> Inl e
      | Inr soup \<Rightarrow>
     (case soup_select w soup (selector a) of
        Inl e \<Rightarrow> Inl e
      | Inr elements \<Rightarrow>
     if elements = [] then Inl (NoElementsFound (selector a) normalized_url) else
     (case joined_content (content_type a) elements of
        Inl e \<Rightarrow> Inl e
      | Inr c \<Rightarrow>
     (case regex_filter (regex a) normalized_url c of
        Inl e \<Rightarrow> Inl e
      | Inr c' \<Rightarrow>
     (case collect_attributes a elements of
        Inl e \<Rightarrow> Inl e
      | Inr attrs \<Rightarrow>
     if c' = [] then Inl (NoContentExtracted (content_type a) normalized_url)
     else Inr \<lparr>url = normalized_url, content = c', attributes = attrs\<rparr>)))))"

text \<open>One run of the \<open>try\<close> body.\<close>

definition attempt :: "world \<Rightarrow> nat \<Rightarrow> scrape_args \<Rightarrow> string \<Rightarrow> effect list \<times> (exn + ScrapedData)" where
  "attempt w t a normalized_url =
     (case fetch_html w t a normalized_url of
        (fx, Inl e) \<Rightarrow> (fx, Inl e)
      | (fx, Inr html) \<Rightarrow> (fx, extract_data w a normalized_url html))"

definition error_msg :: "string \<Rightarrow> exn \<Rightarrow> string" where
  "error_msg normalized_url e = ''Error scraping '' @ normalized_url @ '': '' @ exn_str e"

text \<open>
  The \<open>while attempts <= retry_attempts\<close> loop of lines 251 to 305, from a value of
  \<open>attempts\<close> and a time index: the effects, the result and the next time index. When the
  loop condition fails at once the function falls off its end and returns \<open>None\<close>.
\<close>

function scrape_attempts ::
  "world \<Rightarrow> scrape_args \<Rightarrow> string \<Rightarrow> int \<Rightarrow> nat \<Rightarrow> effect list \<times> ScrapedData option \<times> nat" where
  "scrape_attempts w a normalized_url attempts t =
     (if attempts \<le> retry_attempts a then
        (case attempt w t a normalized_url of
           (fx, Inr d) \<Rightarrow> (fx @ [StatusPut (''Scraped '' @ normalized_url)], Some d, Suc t)
         | (fx, Inl e) \<Rightarrow>
             if attempts + 1 > retry_attempts a
             then (fx @ [StatusPut (error_msg normalized_url e),
                         LoggerError (error_msg normalized_url e)], None, Suc t)
             else (case scrape_attempts w a normalized_url (attempts + 1) (Suc t) of
                     (fx', res, t') \<Rightarrow> (fx @ [Sleep 1] @ fx', res, t')))
      else ([], None, t))"
  by pat_completeness auto
termination
  by (relation "measure (\<lambda>(w, a, u, attempts, t). nat (retry_attempts a + 1 - attempts))") auto

definition scrape_url ::
  "world \<Rightarrow> nat \<Rightarrow> string \<Rightarrow> scrape_args \<Rightarrow> effect list \<times> ScrapedData option \<times> nat" where
  "scrape_url w t u a = scrape_attempts w a (normalize_url u) 0 t"

section \<open>scrape_worker\<close>

text \<open>
  The values \<open>scrape\<close> reads from the form and \<open>scrape_worker\<close> closes over. \<open>c_regex\<close> is
  \<open>re.compile(self.regex_input.get())\<close>: always a pattern object, never \<open>None\<close>.
\<close>

record crawl_config =
  urls :: "string list"
  c_selector :: string
  c_attribute :: string
  c_regex :: pattern_obj
  next_page_selector :: string
  c_content_type :: string
  depth :: int
  c_headers :: headers
  c_timeout :: real
  c_proxy :: string
  scrape_delay :: real
  c_use_headless :: bool
  c_retry_attempts :: int

text \<open>Line 463: the arguments handed to \<open>scrape_url\<close>.\<close>

definition args_of :: "crawl_config \<Rightarrow> scrape_args" where
  "args_of c =
     \<lparr>selector = c_selector c, attribute = c_attribute c, regex = Some (c_regex c),
      use_headless = c_use_headless c, content_type = c_content_type c,
      timeout = c_timeout c, proxy = c_proxy c, retry_attempts = c_retry_attempts c\<rparr>"

text \<open>
  The worker's variables, the shared \<open>total_urls\<close> and \<open>progress\<close> values, the effects so
  far and the time index of the next network call.
\<close>

record state =
  all_urls :: "string set"
  queue :: "(string \<times> int) list"
  seen_content :: "string set"
  scraped_results :: "ScrapedData list"
  total_urls :: int
  progress :: real
  effects :: "effect list"
  clock :: nat

text \<open>Lines 442 to 454.\<close>

definition initial_state :: "crawl_config \<Rightarrow> state" where
  "initial_state c =
     \<lparr>all_urls = {}, queue = map (\<lambda>u. (normalize_url u, 0)) (urls c), seen_content = {},
      scraped_results = [], total_urls = min (int (length (urls c))) 100, progress = 0,
      effects = [StatusPut ''Scraping...''], clock = 0\<rparr>"

text \<open>
  Lines 480 to 487, the loop over the selected elements: the state when the loop ends,
  and the exception that ended it, if any. What the loop did before an exception stays.
\<close>

fun enqueue_links ::
  "world \<Rightarrow> crawl_config \<Rightarrow> string \<Rightarrow> int \<Rightarrow> node list \<Rightarrow> state \<Rightarrow> state \<times> exn option" where
  "enqueue_links w c current_url current_depth [] s = (s, None)"
| "enqueue_links w c current_url current_depth (element # rest) s =
     (case tag_get element ''href'' of
        None \<Rightarrow> enqueue_links w c current_url current_depth rest s
      | Some (AList l) \<Rightarrow>
          if l = [] then enqueue_links w c current_url current_depth rest s
          else (s, Some (TypeError ''Cannot mix str and non-str arguments''))
      | Some (AStr href) \<Rightarrow>
          if href = [] then enqueue_links w c current_url current_depth rest s
          else
            (case urljoin w current_url href of
               Inl e \<Rightarrow> (s, Some e)
             | Inr absolute_url \<Rightarrow>
                 if absolute_url \<notin> all_urls s \<and> current_depth < depth c
                 then enqueue_links w c current_url current_depth rest
                        (s\<lparr>all_urls := insert absolute_url (all_urls s),
                           queue := queue s @ [(absolute_url, current_depth + 1)],
                           total_urls :=
                             min (int (card (insert absolute_url (all_urls s)))) 100\<rparr>)
                 else enqueue_links w c current_url current_depth rest s))"

definition crawl_error :: "string \<Rightarrow> exn \<Rightarrow> state \<Rightarrow> state" where
  "crawl_error current_url e s =
     s\<lparr>effects := effects s @
          [StatusPut (''Error crawling links from '' @ current_url @ '': '' @ exn_str e)]\<rparr>"

text \<open>
  Lines 475 to 489: link discovery. The page is fetched again with \<open>requests\<close> and parsed
  with the parser name \<open>"html_parser"\<close>; no \<open>raise_for_status\<close> here. Every exception
  ends in the \<open>except\<close> clause.
\<close>

definition discover_links :: "world \<Rightarrow> crawl_config \<Rightarrow> string \<Rightarrow> int \<Rightarrow> state \<Rightarrow> state" where
  "discover_links w c current_url current_depth s =
     (if next_page_selector c \<noteq> [] \<or> current_depth < depth c then
        (let s1 = s\<lparr>effects := effects s @
                      [RequestsGet current_url (Some (c_headers c)) (c_timeout c)
                         (proxies_of (c_proxy c))],
                    clock := Suc (clock s)\<rparr>
         in case requests_get w (clock s) current_url (Some (c_headers c)) (c_timeout c)
                   (proxies_of (c_proxy c)) of
              Inl e \<Rightarrow> crawl_error current_url e s1
            | Inr r \<Rightarrow>
                (case BeautifulSoup w (resp_text r) ''html_parser'' of
                   Inl e \<Rightarrow> crawl_error current_url e s1
                 | Inr soup \<Rightarrow>
                     (case soup_select w soup
                             (if next_page_selector c \<noteq> [] then next_page_selector c
                              else ''a'') of
                        Inl e \<Rightarrow> crawl_error current_url e s1
                      | Inr elements \<Rightarrow>
                          (case enqueue_links w c current_url current_depth elements s1 of
                             (s2, None) \<Rightarrow> s2
                           | (s2, Some e) \<Rightarrow> crawl_error current_url e s2))))
      else s)"

text \<open>
  Lines 462 to 473: the url is marked visited and handed to \<open>scrape_url\<close>
  (\<open>pool.apply\<close> waits for the result); a result whose content was not seen before is
  kept; the progress is updated, a \<open>ZeroDivisionError\<close> when \<open>total_urls\<close> is 0; then the
  delay.
\<close>

definition visit :: "world \<Rightarrow> crawl_config \<Rightarrow> string \<Rightarrow> state \<Rightarrow> exn + state" where
  "visit w c current_url s =
     (let s1 = s\<lparr>all_urls := insert current_url (all_urls s)\<rparr>;
          (fx, result, t') = scrape_url w (clock s1) current_url (args_of c);
          s2 = s1\<lparr>effects := effects s1 @ fx, clock := t'\<rparr>;
          s3 = (case result of
                  None \<Rightarrow> s2
                | Some r \<Rightarrow>
                    if content r \<notin> seen_content s2
                    then s2\<lparr>scraped_results := scraped_results s2 @ [r],
                            seen_content := insert (content r) (seen_content s2)\<rparr>
                    else s2)
      in if total_urls s3 = 0 then Inl ZeroDivisionError
         else
           (let s4 = s3\<lparr>progress :=
                        real (length (scraped_results s3)) / real_of_int (total_urls s3)\<rparr>
            in Inr (if scrape_delay c > 0
                    then s4\<lparr>effects := effects s4 @ [Sleep (scrape_delay c)]\<rparr>
                    else s4)))"

text \<open>Lines 458 to 489: one pass through the body of \<open>while queue\<close>.\<close>

definition iteration :: "world \<Rightarrow> crawl_config \<Rightarrow> state \<Rightarrow> exn + state" where
  "iteration w c s =
     (case queue s of
        [] \<Rightarrow> Inr s
      | (current_url, current_depth) # q \<Rightarrow>
          if current_depth > depth c \<or> int (card (all_urls s)) \<ge> 100
          then Inr (s\<lparr>queue := q\<rparr>)
          else
            (case visit w c current_url (s\<lparr>queue := q\<rparr>) of
               Inl e \<Rightarrow> Inl e
             | Inr s' \<Rightarrow> Inr (discover_links w c current_url current_depth s')))"

text \<open>
  The loop ends: an entry leaves the queue in each pass, and the entries that come in
  are one level deeper, with a level that is at most \<open>depth\<close>.
\<close>

definition rank :: "crawl_config \<Rightarrow> string \<times> int \<Rightarrow> nat" where
  "rank c e = nat (depth c - snd e + 1)"

lemma enqueue_links_queue:
  "enqueue_links w c cu d els s = (s', r) \<Longrightarrow>
   \<exists>new. queue s' = queue s @ new \<and> (\<forall>e \<in> set new. snd e = d + 1 \<and> d < depth c)"
proof (induction els arbitrary: s)
  case Nil
  then show ?case by simp
next
  case (Cons el els)
  show ?case
  proof (cases "tag_get el ''href''")
    case None
    with Cons show ?thesis by simp
  next
    case (Some v)
    show ?thesis
    proof (cases v)
      case (AList l)
      with Some Cons show ?thesis by (auto split: if_splits)
    next
      case (AStr href)
      show ?thesis
      proof (cases "href = []")
        case True
        with AStr Some Cons show ?thesis by simp
      next
        case False
        show ?thesis
        proof (cases "urljoin w cu href")
          case (Inl e)
          with False AStr Some Cons.prems show ?thesis by simp
        next
          case (Inr au)
          show ?thesis
          proof (cases "au \<notin> all_urls s \<and> d < depth c")
            case True
            let ?s1 = "s\<lparr>all_urls := insert au (all_urls s),
                          queue := queue s @ [(au, d + 1)],
                          total_urls := min (int (card (insert au (all_urls s)))) 100\<rparr>"
            from True Inr False AStr Some Cons.prems
            have "enqueue_links w c cu d els ?s1 = (s', r)" by simp
            from Cons.IH [OF this] obtain new where
              "queue s' = queue ?s1 @ new" "\<forall>e \<in> set new. snd e = d + 1 \<and> d < depth c"
              by blast
            with True have "queue s' = queue s @ ((au, d + 1) # new)"
              "\<forall>e \<in> set ((au, d + 1) # new). snd e = d + 1 \<and> d < depth c"
              by simp_all
            then show ?thesis by blast
          next
            case no: False
            with Inr False AStr Some Cons.prems
            have "enqueue_links w c cu d els s = (s', r)" by auto
            from Cons.IH [OF this] show ?thesis .
          qed
        qed
      qed
    qed
  qed
qed

lemma discover_links_queue:
  "\<exists>new. queue (discover_links w c cu d s) = queue s @ new
         \<and> (\<forall>e \<in> set new. snd e = d + 1 \<and> d < depth c)"
proof -
  have triv: "\<exists>new. queue s = queue s @ new \<and> (\<forall>e \<in> set new. snd e = d + 1 \<and> d < depth c)"
    by (rule exI [of _ "[]"]) simp
  have enq: "\<exists>new. queue (case enqueue_links w c cu d els s1 of
                (s2, None) \<Rightarrow> s2 | (s2, Some e) \<Rightarrow> crawl_error cu e s2) = queue s @ new
         \<and> (\<forall>e \<in> set new. snd e = d + 1 \<and> d < depth c)"
    if "queue s1 = queue s" for els s1
  proof -
    obtain s2 r where eq: "enqueue_links w c cu d els s1 = (s2, r)" by (cases "enqueue_links w c cu d els s1")
    from enqueue_links_queue [OF eq] that eq show ?thesis
      by (cases r) (auto simp: crawl_error_def)
  qed
  show ?thesis
    unfolding discover_links_def Let_def
    using triv enq
    by (auto simp: crawl_error_def split: sum.splits)
qed

lemma visit_queue: "visit w c u s = Inr s' \<Longrightarrow> queue s' = queue s"
  by (auto simp: visit_def Let_def split: prod.splits option.splits if_splits)

lemma iteration_queue:
  assumes "queue s = (u, d) # q" and "iteration w c s = Inr s'"
  shows "\<exists>new. queue s' = q @ new \<and> (\<forall>e \<in> set new. snd e = d + 1 \<and> d < depth c)"
proof (cases "d > depth c \<or> int (card (all_urls s)) \<ge> 100")
  case True
  with assms have "s' = s\<lparr>queue := q\<rparr>" by (auto simp: iteration_def)
  then show ?thesis by simp
next
  case False
  with assms obtain s1 where v: "visit w c u (s\<lparr>queue := q\<rparr>) = Inr s1"
    and s': "s' = discover_links w c u d s1"
    by (auto simp: iteration_def split: sum.splits)
  from visit_queue [OF v] have "queue s1 = q" by simp
  with discover_links_queue [of w c u d s1] s' show ?thesis by simp
qed

function worker_loop :: "world \<Rightarrow> crawl_config \<Rightarrow> state \<Rightarrow> exn + state" where
  "worker_loop w c s =
     (if queue s = [] then Inr s
      else (case iteration w c s of Inl e \<Rightarrow> Inl e | Inr s' \<Rightarrow> worker_loop w c s'))"
  by pat_completeness auto
termination
proof (relation "inv_image (mult {(a :: nat, b). a < b})
                   (\<lambda>(w, c, s). mset (map (rank c) (queue s)))")
  show "wf (inv_image (mult {(a :: nat, b). a < b})
              (\<lambda>(w, c, s). mset (map (rank c) (queue s))))"
    by (intro wf_inv_image wf_mult wf_less)
next
  fix w c s s'
  assume ne: "queue s \<noteq> []" and it: "iteration w c s = Inr s'"
  from ne obtain u d q where q: "queue s = (u, d) # q" by (cases "queue s") auto
  from iteration_queue [OF q it] obtain new where
    new: "queue s' = q @ new" "\<forall>e \<in> set new. snd e = d + 1 \<and> d < depth c" by blast
  have small: "\<forall>k \<in># mset (map (rank c) new). \<exists>j \<in># {#rank c (u, d)#}. (k, j) \<in> {(a, b). a < b}"
    using new(2) by (auto simp: rank_def)
  have "(mset (map (rank c) q) + mset (map (rank c) new),
         mset (map (rank c) q) + {#rank c (u, d)#}) \<in> mult {(a, b). a < b}"
    by (rule one_step_implies_mult [OF _ small]) simp
  then show "((w, c, s'), (w, c, s))
      \<in> inv_image (mult {(a :: nat, b). a < b}) (\<lambda>(w, c, s). mset (map (rank c) (queue s)))"
    by (simp add: q new(1))
qed

text \<open>
  Lines 449 to 492: the whole worker. \<open>self.results\<close>, emptied on line 442, receives
  \<open>scraped_results\<close>, and the last status says whether there is a result.
\<close>

definition scrape_worker :: "world \<Rightarrow> crawl_config \<Rightarrow> exn + state" where
  "scrape_worker w c =
     (case worker_loop w c (initial_state c) of
        Inl e \<Rightarrow> Inl e
      | Inr s \<Rightarrow>
          Inr (s\<lparr>effects := effects s @
                   [StatusPut (if scraped_results s \<noteq> [] then ''Scraping completed''
                               else ''No successful results'')]\<rparr>))"

definition results :: "state \<Rightarrow> ScrapedData list" where
  "results s = scraped_results s"

declare scrape_attempts.simps [simp del]
declare worker_loop.simps [simp del]
declare finditer.simps [simp del]
declare rmatch.simps(7) [simp del]

section \<open>Observing a run\<close>

text \<open>The states at the head of the \<open>while queue\<close> loop of a run of the worker.\<close>

inductive reachable :: "world \<Rightarrow> crawl_config \<Rightarrow> state \<Rightarrow> bool" for w c where
  start: "reachable w c (initial_state c)"
| pass: "reachable w c s \<Longrightarrow> queue s \<noteq> [] \<Longrightarrow> iteration w c s = Inr s' \<Longrightarrow> reachable w c s'"

text \<open>The effects that start a fetch of \<open>scrape_url\<close>, the sleeps and the status events.\<close>

fun is_fetch_start :: "effect \<Rightarrow> bool" where
  "is_fetch_start (RequestsGet u h t p) = True"
| "is_fetch_start (ChromeStart opts) = True"
| "is_fetch_start e = False"

fun is_sleep :: "effect \<Rightarrow> bool" where
  "is_sleep (Sleep d) = True"
| "is_sleep e = False"

fun is_status :: "effect \<Rightarrow> bool" where
  "is_status (StatusPut m) = True"
| "is_status e = False"

text \<open>
  What \<open>scrape_url\<close> is to do for a url that never succeeds, with \<open>m\<close> retries left: each
  attempt's calls, a sleep of one second between two attempts, and after the last attempt
  the error, put on the status queue and logged.
\<close>

definition attempt_error :: "world \<Rightarrow> nat \<Rightarrow> scrape_args \<Rightarrow> string \<Rightarrow> exn" where
  "attempt_error w t a nu = projl (snd (attempt w t a nu))"

fun failing_trace :: "world \<Rightarrow> scrape_args \<Rightarrow> string \<Rightarrow> nat \<Rightarrow> nat \<Rightarrow> effect list" where
  "failing_trace w a nu t 0 =
     fst (attempt w t a nu) @
     [StatusPut (error_msg nu (attempt_error w t a nu)),
      LoggerError (error_msg nu (attempt_error w t a nu))]"
| "failing_trace w a nu t (Suc m) =
     fst (attempt w t a nu) @ [Sleep 1] @ failing_trace w a nu (Suc t) m"








section \<open>A small site\<close>

text \<open>
  A world to run the program in. \<open>requests\<close> and Chrome reach \<open>https://a.com\<close> and
  its mirror \<open>https://mirror.a.com\<close>, which serve the same markup: a heading and a link.
  \<open>BeautifulSoup\<close> knows the parser names that bs4's tree builders register, and raises \<open>FeatureNotFound\<close> for any
  other name. \<open>select\<close> finds the top-level elements with the given tag name;
  \<open>urljoin\<close> appends a path to the base.
\<close>

definition bs4_features :: "string list" where
  "bs4_features =
     [''html.parser'', ''html'', ''fast'', ''permissive'', ''strict'', ''lxml'',
      ''lxml-html'', ''lxml-xml'', ''xml'', ''html5lib'', ''html5'']"

definition feature_not_found :: "string \<Rightarrow> exn" where
  "feature_not_found f =
     LibraryError
       (''Couldn'' @ [CHR 0x27] @ ''t find a tree builder with the features you requested: ''
        @ f @ ''. Do you need to install a parser library?'')"

definition page_a :: string where
  "page_a = ''<h1>Title</h1><a href=/b>b</a>''"

definition tree_a :: "node list" where
  "tree_a =
     [Tag ''h1'' [] [NavigableString ''Title''],
      Tag ''a'' [(''href'', AStr ''/b'')] [NavigableString ''b'']]"

fun has_name :: "string \<Rightarrow> node \<Rightarrow> bool" where
  "has_name n (Tag m a cs) = (m = n)"
| "has_name n (NavigableString s) = False"

definition site_world :: world where
  "site_world =
     \<lparr>requests_get = (\<lambda>t u h tm p.
         if u = ''https://a.com'' \<or> u = ''https://mirror.a.com''
         then Inr \<lparr>status_code = 200, resp_text = page_a, http_error_msg = []\<rparr>
         else Inl (LibraryError ''connection refused'')),
      chrome_start = (\<lambda>t opts. None),
      driver_get = (\<lambda>t u.
         if u = ''https://a.com'' \<or> u = ''https://mirror.a.com'' then None
         else Some (LibraryError ''net::ERR_CONNECTION_REFUSED'')),
      driver_page_source = (\<lambda>t u. Inr page_a),
      BeautifulSoup = (\<lambda>markup features.
         if features \<in> set bs4_features then Inr (if markup = page_a then tree_a else [])
         else Inl (feature_not_found features)),
      soup_select = (\<lambda>soup sel. Inr (filter (has_name sel) soup)),
      urljoin = (\<lambda>base href. Inr (if startswith href ''/'' then base @ href else href))\<rparr>"

text \<open>\<open>re.compile(".+")\<close>.\<close>

definition dot_plus :: pattern_obj where
  "dot_plus = \<lparr>pattern = ''.+'', prog = Seq AnyChar (Star AnyChar)\<rparr>"

text \<open>A crawl of \<open>a.com\<close> to depth 1 for its \<open>h1\<close> text, and the arguments of a
  \<open>scrape_url\<close> call with two retries.\<close>

definition crawl_a :: crawl_config where
  "crawl_a =
     \<lparr>urls = [''a.com''], c_selector = ''h1'', c_attribute = [], c_regex = dot_plus,
      next_page_selector = [], c_content_type = ''text'', depth = 1, c_headers = [],
      c_timeout = 10, c_proxy = [], scrape_delay = 0, c_use_headless = False,
      c_retry_attempts = 0\<rparr>"

definition args_h1 :: scrape_args where
  "args_h1 =
     \<lparr>selector = ''h1'', attribute = [], regex = None, use_headless = False,
      content_type = ''text'', timeout = 10, proxy = ''http://127.0.0.1:8080'',
      retry_attempts = 2\<rparr>"

text \<open>The same site with a \<open>BeautifulSoup\<close> that accepts any parser name.\<close>

definition any_parser_world :: world where
  "any_parser_world =
     site_world\<lparr>BeautifulSoup := (\<lambda>markup features. Inr (if markup = page_a then tree_a else []))\<rparr>"




text \<open>A state whose only queue entry lies deeper than the depth of \<open>crawl_a\<close>, and the
  state with a hundred visited urls and one entry in the queue.\<close>

definition deep_state :: state where
  "deep_state = (initial_state crawl_a)\<lparr>queue := [(''https://a.com/b/c'', 2)]\<rparr>"


text \<open>The crawl of \<open>a.com\<close> with the regex field of the form left empty, to depth 0.\<close>

definition crawl_no_pattern :: crawl_config where
  "crawl_no_pattern = crawl_a\<lparr>c_regex := empty_pattern, depth := 0\<rparr>"


section \<open>Properties of URL normalisation\<close>

lemma startswith_prefix: "startswith s p = prefix p s"
proof
  assume "startswith s p"
  then have "s = p @ drop (length p) s"
    by (metis append_take_drop_id startswith_def)
  then show "prefix p s"
    by (metis prefixI)
next
  assume "prefix p s"
  then show "startswith s p"
    by (auto simp: startswith_def prefix_def)
qed

text \<open>
  Claim C8. \<open>normalize_url\<close> is a total function of its argument alone. It returns
  \<open>"https://" + raw\<close> when neither \<open>"http://"\<close> nor \<open>"https://"\<close> is a prefix of \<open>raw\<close>, and
  \<open>raw\<close> itself otherwise; so \<open>normalize("example.com") = "https://example.com"\<close> and
  \<open>normalize("http://x.com") = "http://x.com"\<close>.
\<close>

theorem normalize_url_spec:
  "(\<not> prefix ''http://'' raw \<and> \<not> prefix ''https://'' raw
      \<longrightarrow> normalize_url raw = ''https://'' @ raw)
   \<and> (prefix ''http://'' raw \<or> prefix ''https://'' raw \<longrightarrow> normalize_url raw = raw)
   \<and> normalize_url ''example.com'' = ''https://example.com''
   \<and> normalize_url ''http://x.com'' = ''http://x.com''"
  by (simp add: normalize_url_def startswith_prefix)

theorem normalize_url_spec_witness:
  "\<not> prefix ''http://'' ''example.com'' \<and> \<not> prefix ''https://'' ''example.com''
   \<and> normalize_url ''example.com'' = ''https://example.com''
   \<and> prefix ''https://'' ''https://a.org/x''
   \<and> normalize_url ''https://a.org/x'' = ''https://a.org/x''"
  using normalize_url_spec [of "''example.com''"] normalize_url_spec [of "''https://a.org/x''"]
  by simp


section \<open>Retries\<close>

lemma attempt_fst: "fst (attempt w t a nu) = fst (fetch_html w t a nu)"
  by (auto simp: attempt_def split: prod.splits sum.splits)

lemma fetch_html_effects:
  "length (filter is_fetch_start (fst (fetch_html w t a nu))) = 1
   \<and> filter is_sleep (fst (fetch_html w t a nu)) = []
   \<and> filter is_status (fst (fetch_html w t a nu)) = []"
  by (auto simp: fetch_html_def split: option.splits)

lemma scrape_attempts_failing:
  assumes fail: "\<forall>t. \<exists>e. snd (attempt w t a nu) = Inl e"
  shows "attempts \<le> retry_attempts a \<Longrightarrow> m = nat (retry_attempts a - attempts) \<Longrightarrow>
         scrape_attempts w a nu attempts t = (failing_trace w a nu t m, None, Suc (t + m))"
proof (induction m arbitrary: attempts t)
  case 0
  from fail obtain e where "snd (attempt w t a nu) = Inl e" by blast
  then obtain fx where at: "attempt w t a nu = (fx, Inl e)"
    by (cases "attempt w t a nu") auto
  from 0 have "attempts = retry_attempts a" by simp
  with at show ?case
    by (subst scrape_attempts.simps) (simp add: attempt_error_def)
next
  case (Suc m)
  from fail obtain e where "snd (attempt w t a nu) = Inl e" by blast
  then obtain fx where at: "attempt w t a nu = (fx, Inl e)"
    by (cases "attempt w t a nu") auto
  from Suc.prems have lt: "attempts + 1 \<le> retry_attempts a"
    and m: "m = nat (retry_attempts a - (attempts + 1))"
    by auto
  note ih = Suc.IH [OF lt m, of "Suc t"]
  from at lt ih show ?case
    by (subst scrape_attempts.simps) simp
qed

lemma failing_trace_counts:
  "length (filter is_fetch_start (failing_trace w a nu t m)) = Suc m
   \<and> filter is_sleep (failing_trace w a nu t m) = replicate m (Sleep 1)
   \<and> filter is_status (failing_trace w a nu t m) =
       [StatusPut (error_msg nu (attempt_error w (t + m) a nu))]"
  by (induction m arbitrary: t) (simp_all add: attempt_fst fetch_html_effects)

text \<open>
  Claim C3. When every attempt on a url fails and \<open>retry_attempts = k \<ge> 0\<close>, \<open>scrape_url\<close>
  returns \<open>None\<close> after exactly \<open>k + 1\<close> attempts, each with one fetch; it sleeps one second
  after each failed attempt but the last, \<open>k\<close> times in all; and it puts exactly one status
  on the queue, the error of the last attempt, once that attempt has failed.
\<close>

theorem scrape_url_retry_exact:
  assumes "0 \<le> retry_attempts a"
    and "\<forall>t. \<exists>e. snd (attempt w t a (normalize_url u)) = Inl e"
  shows "scrape_url w t u a =
           (failing_trace w a (normalize_url u) t (nat (retry_attempts a)), None,
            Suc (t + nat (retry_attempts a)))
         \<and> length (filter is_fetch_start (fst (scrape_url w t u a))) = nat (retry_attempts a) + 1
         \<and> filter is_sleep (fst (scrape_url w t u a)) = replicate (nat (retry_attempts a)) (Sleep 1)
         \<and> filter is_status (fst (scrape_url w t u a)) =
             [StatusPut (error_msg (normalize_url u)
                (attempt_error w (t + nat (retry_attempts a)) a (normalize_url u)))]"
proof -
  have "scrape_url w t u a =
           (failing_trace w a (normalize_url u) t (nat (retry_attempts a)), None,
            Suc (t + nat (retry_attempts a)))"
    unfolding scrape_url_def
    using scrape_attempts_failing [OF assms(2), of 0 "nat (retry_attempts a)" t] assms(1)
    by simp
  then show ?thesis by (simp add: failing_trace_counts)
qed

lemma attempt_bad_com:
  "attempt site_world t args_h1 ''https://bad.com'' =
     ([RequestsGet ''https://bad.com'' None 10
         (Some [(''http'', ''http://127.0.0.1:8080''), (''https'', ''http://127.0.0.1:8080'')])],
      Inl (LibraryError ''connection refused''))"
  by (simp add: attempt_def fetch_html_def site_world_def args_h1_def proxies_of_def)

theorem scrape_url_retry_exact_witness:
  "0 \<le> retry_attempts args_h1
   \<and> (\<forall>t. \<exists>e. snd (attempt site_world t args_h1 (normalize_url ''bad.com'')) = Inl e)
   \<and> fst (snd (scrape_url site_world 0 ''bad.com'' args_h1)) = None
   \<and> length (filter is_fetch_start (fst (scrape_url site_world 0 ''bad.com'' args_h1))) = 3
   \<and> filter is_sleep (fst (scrape_url site_world 0 ''bad.com'' args_h1)) = [Sleep 1, Sleep 1]
   \<and> filter is_status (fst (scrape_url site_world 0 ''bad.com'' args_h1)) =
       [StatusPut ''Error scraping https://bad.com: connection refused'']"
proof -
  have k: "0 \<le> retry_attempts args_h1" and k2: "nat (retry_attempts args_h1) = 2"
    by (simp_all add: args_h1_def)
  have nu: "normalize_url ''bad.com'' = ''https://bad.com''"
    by (simp add: normalize_url_def startswith_def)
  have fail: "\<forall>t. \<exists>e. snd (attempt site_world t args_h1 (normalize_url ''bad.com'')) = Inl e"
    by (simp add: nu attempt_bad_com)
  from scrape_url_retry_exact [OF k fail, of 0] k fail show ?thesis
    by (simp add: k2 attempt_error_def attempt_bad_com error_msg_def numeral_2_eq_2 nu)
qed

section \<open>The two ways to fetch\<close>

lemma headless_ignores_proxy:
  "use_headless a \<Longrightarrow> fetch_html w t (a\<lparr>proxy := p\<rparr>) nu = fetch_html w t a nu"
  by (auto simp: fetch_html_def split: option.splits)

text \<open>
  Claim C9, on the code: with a proxy configured, the plain fetch passes the timeout and
  the proxy to \<open>requests.get\<close>; the headless fetch starts Chrome with the single argument
  \<open>--headless\<close>, so no proxy reaches the browser, and it sets the timeout only as
  the implicit wait, after \<open>driver.get\<close> has loaded the page.
\<close>

theorem headless_fetch_calls:
  "fst (fetch_html site_world 0 (args_h1\<lparr>use_headless := True\<rparr>) ''https://a.com'') =
     [ChromeStart [''--headless''], DriverGet ''https://a.com'', ImplicitlyWait 10,
      PageSource, DriverQuit]
   \<and> fst (fetch_html site_world 0 args_h1 ''https://a.com'') =
     [RequestsGet ''https://a.com'' None 10
        (Some [(''http'', ''http://127.0.0.1:8080''), (''https'', ''http://127.0.0.1:8080'')])]"
  by (simp add: fetch_html_def site_world_def args_h1_def proxies_of_def)

section \<open>Link discovery\<close>

lemma discover_links_parser_rejected:
  assumes "\<forall>m. \<exists>e. BeautifulSoup w m ''html_parser'' = Inl e"
  shows "all_urls (discover_links w c u d s) = all_urls s
         \<and> queue (discover_links w c u d s) = queue s"
proof (cases "next_page_selector c \<noteq> [] \<or> d < depth c")
  case False
  then show ?thesis by (simp add: discover_links_def)
next
  case True
  show ?thesis
  proof (cases "requests_get w (clock s) u (Some (c_headers c)) (c_timeout c)
                  (proxies_of (c_proxy c))")
    case (Inl e)
    with True show ?thesis by (simp add: discover_links_def Let_def crawl_error_def)
  next
    case (Inr r)
    from assms obtain e where "BeautifulSoup w (resp_text r) ''html_parser'' = Inl e"
      by blast
    with True Inr show ?thesis by (simp add: discover_links_def Let_def crawl_error_def)
  qed
qed

text \<open>
  Claim C1, on the code: a crawl of \<open>a.com\<close> to depth 1, whose page links to \<open>/b\<close>. The
  link selector, run on the parsed page, yields the link, and the loop of lines 480 to
  487 would put \<open>(https://a.com/b, 1)\<close> in the queue. But line 478 asks for the parser
  \<open>"html_parser"\<close>, which \<open>BeautifulSoup\<close> does not know (line 269 has \<open>"html.parser"\<close>): the
  exception is caught on line 488, the status reports it, and the crawl ends with only the
  seed visited.
\<close>

theorem link_discovery_wrong_parser_name:
  "(case scrape_worker site_world crawl_a of
      Inl e \<Rightarrow> False
    | Inr s \<Rightarrow>
        all_urls s = {''https://a.com''} \<and> queue s = []
        \<and> map url (results s) = [''https://a.com'']
        \<and> filter is_status (effects s) =
            [StatusPut ''Scraping...'', StatusPut ''Scraped https://a.com'',
             StatusPut (''Error crawling links from https://a.com: ''
                        @ exn_str (feature_not_found ''html_parser'')),
             StatusPut ''Scraping completed''])
   \<and> soup_select site_world tree_a ''a'' = Inr [Tag ''a'' [(''href'', AStr ''/b'')] [NavigableString ''b'']]
   \<and> queue (fst (enqueue_links site_world crawl_a ''https://a.com'' 0
              [Tag ''a'' [(''href'', AStr ''/b'')] [NavigableString ''b'']]
              ((initial_state crawl_a)\<lparr>queue := []\<rparr>))) = [(''https://a.com/b'', 1)]"
  by code_simp

section \<open>The worker's loop\<close>


















section \<open>Deduplication\<close>




section \<open>The depth bound\<close>

text \<open>
  Claim C4. An entry whose depth exceeds the configured depth is dropped when it is
  dequeued: the pass changes nothing but the queue, so \<open>scrape_url\<close> is not called for it.
  A pass appends only entries one level below the dequeued one, and only with a level that
  is at most the configured depth. At the head of the loop every queue entry is a seed, of
  depth 0, or has a depth that is at most the configured depth.
\<close>

theorem depth_bound:
  "(\<forall>s u d' q. queue s = (u, d') # q \<longrightarrow> depth c < d' \<longrightarrow>
        iteration w c s = Inr (s\<lparr>queue := q\<rparr>))
   \<and> (\<forall>s u d' q s'. queue s = (u, d') # q \<longrightarrow> iteration w c s = Inr s' \<longrightarrow>
        (\<exists>new. queue s' = q @ new \<and> (\<forall>e \<in> set new. snd e = d' + 1 \<and> snd e \<le> depth c)))
   \<and> (\<forall>s. reachable w c s \<longrightarrow> (\<forall>e \<in> set (queue s). snd e = 0 \<or> snd e \<le> depth c))"
proof (intro conjI allI impI)
  fix s :: state and u d' q
  assume "queue s = (u, d') # q" "depth c < d'"
  then show "iteration w c s = Inr (s\<lparr>queue := q\<rparr>)" by (simp add: iteration_def)
next
  fix s s' :: state and u d' q
  assume q: "queue s = (u, d') # q" and it: "iteration w c s = Inr s'"
  from iteration_queue [OF q it]
  show "\<exists>new. queue s' = q @ new \<and> (\<forall>e \<in> set new. snd e = d' + 1 \<and> snd e \<le> depth c)"
    by force
next
  fix s :: state assume "reachable w c s"
  then show "\<forall>e \<in> set (queue s). snd e = 0 \<or> snd e \<le> depth c"
  proof (induction rule: reachable.induct)
    case start
    show ?case by (auto simp: initial_state_def)
  next
    case (pass s s')
    from pass.hyps(2) obtain u d q where q: "queue s = (u, d) # q"
      by (cases "queue s") auto
    from iteration_queue [OF q pass.hyps(3)] obtain new where
      new: "queue s' = q @ new" "\<forall>e \<in> set new. snd e = d + 1 \<and> d < depth c" by blast
    from pass.IH q have "\<forall>e \<in> set q. snd e = 0 \<or> snd e \<le> depth c" by simp
    with new show ?case by auto
  qed
qed

lemma any_parser_step:
  "queue (projr (iteration any_parser_world crawl_a (initial_state crawl_a))) =
     [(''https://a.com/b'', 1)]"
  by code_simp

theorem depth_bound_witness:
  "queue deep_state = [(''https://a.com/b/c'', 2)]
   \<and> depth crawl_a < 2
   \<and> iteration site_world crawl_a deep_state = Inr (deep_state\<lparr>queue := []\<rparr>)
   \<and> queue (projr (iteration any_parser_world crawl_a (initial_state crawl_a))) =
       [(''https://a.com/b'', 1)]"
proof -
  have q: "queue deep_state = (''https://a.com/b/c'', 2) # []"
    by (simp add: deep_state_def)
  have d: "depth crawl_a < 2" by (simp add: crawl_a_def)
  from depth_bound [of crawl_a site_world] q d
  have "iteration site_world crawl_a deep_state = Inr (deep_state\<lparr>queue := []\<rparr>)"
    by blast
  with q d any_parser_step show ?thesis by simp
qed

section \<open>The cap on visited urls\<close>






section \<open>The regex filter\<close>

lemma py_join_empties: "py_join sep (replicate (Suc n) []) = concat (replicate n sep)"
  by (induction n) simp_all

lemma finditer_Eps_True:
  "finditer Eps s True = (case s of [] \<Rightarrow> [] | x # xs \<Rightarrow> finditer Eps xs False)"
  by (subst finditer.simps) simp

lemma finditer_Eps_False:
  "finditer Eps s False = (s, (s, Map.empty)) # finditer Eps s True"
  by (subst finditer.simps) simp

lemma findall_empty_pattern: "findall empty_pattern s = replicate (Suc (length s)) (Str [])"
proof -
  have "map (item_of Eps) (finditer Eps s False) = replicate (Suc (length s)) (Str [])"
  proof (induction s)
    case Nil
    show ?case
      by (simp add: finditer_Eps_False finditer_Eps_True item_of_def match_text_def)
  next
    case (Cons x xs)
    then show ?case
      by (simp add: finditer_Eps_False [of "x # xs"] finditer_Eps_True item_of_def
          match_text_def)
  qed
  then show ?thesis by (simp add: findall_def empty_pattern_def)
qed

lemma regex_filter_empty_pattern:
  "regex_filter (Some empty_pattern) nu s = Inr (replicate (length s) CHR 0x0A)"
proof -
  have "map str_of (replicate (Suc (length s)) (Str [])) = replicate (Suc (length s)) []"
    by simp
  moreover have "concat (replicate n [CHR 0x0A]) = replicate n CHR 0x0A" for n
    by (induction n) simp_all
  ultimately show ?thesis
    by (simp add: regex_filter_def findall_empty_pattern join_items_def Let_def
        py_join_empties list_all_iff del: replicate_Suc)
qed

text \<open>
  Claim C10. The worker always hands \<open>scrape_url\<close> a pattern object, never \<open>None\<close>, so
  the regex filter always runs. For the empty pattern \<open>findall\<close> gives one empty string per
  position of the content, one more than its length, and the filter replaces a content of
  \<open>n\<close> characters by \<open>n\<close> newlines. So with an empty regex field, an extraction whose
  selected content is not empty yields a record whose content is only newlines.
\<close>

theorem empty_pattern_replaces_content:
  "(\<forall>cfg. regex (args_of cfg) = Some (c_regex cfg))
   \<and> (\<forall>s. findall empty_pattern s = replicate (Suc (length s)) (Str []))
   \<and> (\<forall>nu s. regex_filter (Some empty_pattern) nu s = Inr (replicate (length s) CHR 0x0A))
   \<and> (\<forall>w cfg nu html soup elements c attrs.
         c_regex cfg = empty_pattern \<longrightarrow>
         BeautifulSoup w html ''html.parser'' = Inr soup \<longrightarrow>
         soup_select w soup (c_selector cfg) = Inr elements \<longrightarrow> elements \<noteq> [] \<longrightarrow>
         joined_content (c_content_type cfg) elements = Inr c \<longrightarrow> c \<noteq> [] \<longrightarrow>
         collect_attributes (args_of cfg) elements = Inr attrs \<longrightarrow>
         extract_data w (args_of cfg) nu html =
           Inr \<lparr>url = nu, content = replicate (length c) CHR 0x0A, attributes = attrs\<rparr>)"
  by (simp add: findall_empty_pattern regex_filter_empty_pattern extract_data_def args_of_def)

lemma crawl_no_pattern_run:
  "map content (results (projr (scrape_worker site_world crawl_no_pattern))) =
     [replicate 5 CHR 0x0A]"
  by code_simp

theorem empty_pattern_replaces_content_witness:
  "c_regex crawl_no_pattern = empty_pattern
   \<and> BeautifulSoup site_world page_a ''html.parser'' = Inr tree_a
   \<and> soup_select site_world tree_a (c_selector crawl_no_pattern) =
       Inr [Tag ''h1'' [] [NavigableString ''Title'']]
   \<and> joined_content (c_content_type crawl_no_pattern) [Tag ''h1'' [] [NavigableString ''Title'']]
       = Inr ''Title''
   \<and> collect_attributes (args_of crawl_no_pattern) [Tag ''h1'' [] [NavigableString ''Title'']]
       = Inr []
   \<and> extract_data site_world (args_of crawl_no_pattern) ''https://a.com'' page_a =
       Inr \<lparr>url = ''https://a.com'', content = replicate 5 CHR 0x0A, attributes = []\<rparr>
   \<and> map content (results (projr (scrape_worker site_world crawl_no_pattern))) =
       [replicate 5 CHR 0x0A]"
proof -
  have a: "c_regex crawl_no_pattern = empty_pattern"
    by (simp add: crawl_no_pattern_def)
  have b: "BeautifulSoup site_world page_a ''html.parser'' = Inr tree_a"
    by (simp add: site_world_def bs4_features_def)
  have c: "soup_select site_world tree_a (c_selector crawl_no_pattern) =
             Inr [Tag ''h1'' [] [NavigableString ''Title'']]"
    by (simp add: site_world_def crawl_no_pattern_def crawl_a_def tree_a_def)
  have d: "joined_content (c_content_type crawl_no_pattern)
             [Tag ''h1'' [] [NavigableString ''Title'']] = Inr ''Title''"
    by code_simp
  have e: "collect_attributes (args_of crawl_no_pattern)
             [Tag ''h1'' [] [NavigableString ''Title'']] = Inr []"
    by (simp add: collect_attributes_def args_of_def crawl_no_pattern_def crawl_a_def)
  from empty_pattern_replaces_content a b c d e
  have "extract_data site_world (args_of crawl_no_pattern) ''https://a.com'' page_a =
       Inr \<lparr>url = ''https://a.com'', content = replicate (length ''Title'') CHR 0x0A,
            attributes = []\<rparr>"
    by blast
  with a b c d e crawl_no_pattern_run show ?thesis by (simp add: numeral_eq_Suc)
qed

section \<open>Matches of a pattern\<close>

lemma rmatch_sound:
  "st' \<in> set (rmatch r st) \<Longrightarrow> \<exists>m. fst st = m @ fst st' \<and> m \<in> lang r"
proof (induction r st arbitrary: st' rule: rmatch.induct)
  case (1 st)
  then show ?case by simp
next
  case (2 c s g)
  then show ?case by (cases s) (auto split: if_splits)
next
  case (3 s g)
  then show ?case by (cases s) (auto split: if_splits)
next
  case (4 s g)
  then show ?case by (cases s) (auto split: if_splits)
next
  case (5 a b st)
  from "5.prems" obtain st1 where st1: "st1 \<in> set (rmatch a st)" and st': "st' \<in> set (rmatch b st1)"
    by auto
  from "5.IH"(1) [OF st1] obtain m1 where m1: "fst st = m1 @ fst st1" "m1 \<in> lang a" by blast
  from "5.IH"(2) [OF st1 st'] obtain m2 where m2: "fst st1 = m2 @ fst st'" "m2 \<in> lang b" by blast
  from m1 m2 have "fst st = (m1 @ m2) @ fst st'" "m1 @ m2 \<in> lang (Seq a b)" by auto
  then show ?case by blast
next
  case (6 a b st)
  from "6.prems" have "st' \<in> set (rmatch a st) \<or> st' \<in> set (rmatch b st)" by simp
  then show ?case
  proof
    assume "st' \<in> set (rmatch a st)"
    from "6.IH"(1) [OF this] show ?thesis by auto
  next
    assume "st' \<in> set (rmatch b st)"
    from "6.IH"(2) [OF this] show ?thesis by auto
  qed
next
  case (7 a s g)
  from "7.prems" consider (zero) "st' = (s, g)"
    | (iter) st1 where "st1 \<in> set (rmatch a (s, g))" "length (fst st1) < length s"
        "st' \<in> set (rmatch (Star a) st1)"
    by (subst (asm) rmatch.simps(7)) auto
  then show ?case
  proof cases
    case zero
    then show ?thesis by (auto intro: kleene.nil)
  next
    case iter
    from "7.IH"(1) [OF iter(1)] obtain m1 where m1: "s = m1 @ fst st1" "m1 \<in> lang a" by auto
    from iter(1,2) have "st1 \<in> set (filter (\<lambda>st'. length (fst st') < length s) (rmatch a (s, g)))"
      by simp
    from "7.IH"(2) [OF this iter(3)] obtain m2 where
      m2: "fst st1 = m2 @ fst st'" "m2 \<in> kleene (lang a)" by auto
    from m1 m2 have "fst (s, g) = (m1 @ m2) @ fst st'" "m1 @ m2 \<in> lang (Star a)"
      by (auto intro: kleene.more)
    then show ?thesis by blast
  qed
next
  case (8 n a s g)
  from "8.prems" obtain st1 where st1: "st1 \<in> set (rmatch a (s, g))" and "fst st' = fst st1"
    by auto
  with "8.IH" [OF st1] show ?case by auto
qed

text \<open>The two guards that make \<open>finditer\<close> end by the length of the subject never fail.\<close>

lemma finditer_unguarded:
  "finditer r s adv =
     (case filter (\<lambda>st'. \<not> adv \<or> fst st' \<noteq> s) (rmatch r (s, Map.empty)) of
        [] \<Rightarrow> (case s of [] \<Rightarrow> [] | x # xs \<Rightarrow> finditer r xs False)
      | m # ms \<Rightarrow> (s, m) # (if fst m = s then finditer r s True else finditer r (fst m) False))"
proof (cases "filter (\<lambda>st'. \<not> adv \<or> fst st' \<noteq> s) (rmatch r (s, Map.empty))")
  case Nil
  then show ?thesis by (subst finditer.simps) simp
next
  case (Cons m ms)
  then have "m \<in> set (filter (\<lambda>st'. \<not> adv \<or> fst st' \<noteq> s) (rmatch r (s, Map.empty)))"
    by simp
  then have m: "m \<in> set (rmatch r (s, Map.empty))" and a: "\<not> adv \<or> fst m \<noteq> s" by simp_all
  from rmatch_sound [OF m] obtain x where x: "s = x @ fst m" by auto
  then have "length (fst m) \<le> length s" by (metis length_append le_add2)
  moreover from x have "fst m \<noteq> s \<Longrightarrow> length (fst m) \<noteq> length s"
    by (metis append_eq_append_conv append_self_conv2)
  ultimately have "fst m \<noteq> s \<Longrightarrow> length (fst m) < length s" by simp
  with Cons a show ?thesis by (subst finditer.simps) auto
qed













section \<open>Text content\<close>



















end
